theory Spec2Isabelle
  imports Complex_Main "HOL-Library.AList" "HOL-Library.Word"
begin

section \<open>Data model\<close>

text \<open>
  The functions of \<^verbatim>\<open>src/earthquakes/tools.py\<close>. Magnitudes, distances and
  coordinates are numpy/Python floats in the source; they are modelled as real numbers,
  so rounding, infinities and NaN are outside the model. \<^verbatim>\<open>compute_payouts\<close> only
  compares payouts, which is the same for integers and floats, so its payouts are real
  numbers too. \<^verbatim>\<open>compute_burning_cost\<close> adds payouts up with numpy, where integers
  and floats differ: there a payout is a \<open>py_num\<close>, an integer of numpy's
  \<^verbatim>\<open>int64\<close> (a Python integer that fits included) or a float. Python integers
  beyond the \<^verbatim>\<open>int64\<close> range, for which numpy chooses other array types, are not
  modelled. Calendar years are Python's unbounded integers. A Python \<^verbatim>\<open>dict\<close>
  keyed by years is an association list in insertion order whose keys are distinct.
\<close>

datatype py_error = ValueError | KeyError

text \<open>One row of \<^verbatim>\<open>earthquake_data[[TIME_COLUMN, MAGNITUDE_COLUMN, DISTANCE_COLUMN]]\<close>.\<close>

record event =
  time :: string
  mag :: real
  distance :: real

text \<open>One row of \<^verbatim>\<open>payouts_str[['Radius', 'Magnitude', 'Payout']]\<close>.\<close>

record band =
  Radius :: real
  Magnitude :: real
  Payout :: real

type_synonym payout_dict = "(int \<times> real) list"

section \<open>The builtin \<^verbatim>\<open>int\<close> on a string\<close>

text \<open>
  \<^verbatim>\<open>int(s)\<close> in base 10, for a string of code points below 256: surrounding
  whitespace is stripped, one sign is allowed, then decimal digits, where single
  underscores may stand between two digits. Anything else raises \<^verbatim>\<open>ValueError\<close>.
\<close>

definition is_space :: "char \<Rightarrow> bool" where
  "is_space c = ((of_char c :: nat) \<in> {9, 10, 11, 12, 13, 32, 133, 160})"

definition is_digit :: "char \<Rightarrow> bool" where
  "is_digit c = (48 \<le> (of_char c :: nat) \<and> (of_char c :: nat) \<le> 57)"

definition digit_val :: "char \<Rightarrow> int" where
  "digit_val c = int (of_char c) - 48"

definition strip :: "string \<Rightarrow> string" where
  "strip s = rev (dropWhile is_space (rev (dropWhile is_space s)))"

fun digits_loop :: "string \<Rightarrow> bool \<Rightarrow> int \<Rightarrow> py_error + int" where
  "digits_loop [] prev_digit acc = (if prev_digit then Inr acc else Inl ValueError)"
| "digits_loop (c # cs) prev_digit acc =
     (if is_digit c then digits_loop cs True (10 * acc + digit_val c)
      else if c = CHR ''_'' \<and> prev_digit then digits_loop cs False acc
      else Inl ValueError)"

definition py_int :: "string \<Rightarrow> py_error + int" where
  "py_int s =
     (case strip s of
        [] \<Rightarrow> Inl ValueError
      | c # cs \<Rightarrow>
          if c = CHR ''-'' then
            (case digits_loop cs False 0 of Inl err \<Rightarrow> Inl err | Inr n \<Rightarrow> Inr (- n))
          else if c = CHR ''+'' then digits_loop cs False 0
          else digits_loop (c # cs) False 0)"

section \<open>\<^verbatim>\<open>get_haversine_distance\<close>\<close>

definition EARTH_RADIUS :: real where
  "EARTH_RADIUS = 6378"

text \<open>
  The numpy operations of the source act elementwise; this is the function on one
  point \<open>(lats, lons)\<close> and the reference point \<open>(lat0, lon0)\<close>.
\<close>

definition haversine_a :: "real \<Rightarrow> real \<Rightarrow> real \<Rightarrow> real \<Rightarrow> real" where
  "haversine_a lats lons lat0 lon0 =
     (let lats = lats * (pi / 180);
          lons = lons * (pi / 180);
          lat0 = lat0 * (pi / 180);
          lon0 = lon0 * (pi / 180);
          dlon = lons - lon0;
          dlat = lats - lat0
      in (sin (dlat / 2))\<^sup>2 + cos lat0 * cos lats * (sin (dlon / 2))\<^sup>2)"

definition get_haversine_distance :: "real \<Rightarrow> real \<Rightarrow> real \<Rightarrow> real \<Rightarrow> real" where
  "get_haversine_distance lats lons lat0 lon0 =
     (let a = haversine_a lats lons lat0 lon0;
          c = 2 * arcsin (sqrt a);
          r = EARTH_RADIUS
      in c * r)"

section \<open>\<^verbatim>\<open>compute_payouts\<close>\<close>

text \<open>The test of line 68: the event lies inside the band's radius and reaches its magnitude.\<close>

definition qualifies :: "event \<Rightarrow> band \<Rightarrow> bool" where
  "qualifies e b = (distance e \<le> Radius b \<and> mag e \<ge> Magnitude b)"

text \<open>The inner loop over the schedule, with the running value of \<^verbatim>\<open>payout\<close>.\<close>

fun schedule_loop :: "event \<Rightarrow> band list \<Rightarrow> real \<Rightarrow> real" where
  "schedule_loop e [] payout = payout"
| "schedule_loop e (b # bs) payout =
     schedule_loop e bs
       (if qualifies e b then (if payout < Payout b then Payout b else payout)
        else payout)"

definition event_payout :: "event \<Rightarrow> band list \<Rightarrow> real" where
  "event_payout e payouts_str = schedule_loop e payouts_str 0"

definition year_of :: "event \<Rightarrow> py_error + int" where
  "year_of e = py_int (take 4 (time e))"

text \<open>Lines 72 to 77: the update of \<^verbatim>\<open>payout_years\<close> for one event.\<close>

definition record_payout :: "int \<Rightarrow> real \<Rightarrow> payout_dict \<Rightarrow> payout_dict" where
  "record_payout year payout payout_years =
     (case map_of payout_years year of
        Some old \<Rightarrow>
          if old < payout then AList.update year payout payout_years else payout_years
      | None \<Rightarrow> AList.update year payout payout_years)"

text \<open>The outer loop over the catalogue; a \<^verbatim>\<open>ValueError\<close> of \<^verbatim>\<open>int\<close> ends it.\<close>

fun events_loop :: "event list \<Rightarrow> band list \<Rightarrow> payout_dict \<Rightarrow> py_error + payout_dict" where
  "events_loop [] payouts_str payout_years = Inr payout_years"
| "events_loop (e # es) payouts_str payout_years =
     (case year_of e of
        Inl err \<Rightarrow> Inl err
      | Inr year \<Rightarrow>
          events_loop es payouts_str
            (record_payout year (event_payout e payouts_str) payout_years))"

definition compute_payouts :: "event list \<Rightarrow> band list \<Rightarrow> py_error + payout_dict" where
  "compute_payouts earthquake_data payouts_str = events_loop earthquake_data payouts_str []"

text \<open>
  The maximum payout over the qualifying bands, as the specification words it; it is
  only meaningful when some band qualifies.
\<close>

definition max_qualifying_payout :: "event \<Rightarrow> band list \<Rightarrow> real" where
  "max_qualifying_payout e payouts_str = Max (Payout ` set (filter (qualifies e) payouts_str))"

section \<open>\<^verbatim>\<open>compute_burning_cost\<close>\<close>

text \<open>A value of the dictionary \<^verbatim>\<open>payouts\<close>: an \<^verbatim>\<open>int64\<close> integer or a float.\<close>

datatype py_num = PyInt "64 word" | PyFloat real

type_synonym num_dict = "(int \<times> py_num) list"

text \<open>The conversion of a number to a float, exact in this model.\<close>

fun to_float :: "py_num \<Rightarrow> real" where
  "to_float (PyInt w) = real_of_int (sint w)"
| "to_float (PyFloat x) = x"

fun is_int :: "py_num \<Rightarrow> bool" where
  "is_int (PyInt w) = True"
| "is_int (PyFloat x) = False"

text \<open>
  \<^verbatim>\<open>np.asarray(burn)\<close> is an \<^verbatim>\<open>int64\<close> array when every element of the list is
  an integer, and a float array otherwise (an empty list gives a float array);
  \<open>int_values\<close> returns the integers in the first case.
\<close>

fun int_values :: "py_num list \<Rightarrow> 64 word list option" where
  "int_values [] = Some []"
| "int_values (PyInt w # vs) = map_option ((#) w) (int_values vs)"
| "int_values (PyFloat x # vs) = None"

text \<open>
  \<^verbatim>\<open>np.asarray(burn).sum()\<close>: the sum of an \<^verbatim>\<open>int64\<close> array is an \<^verbatim>\<open>int64\<close>
  and wraps around, as the addition of \<open>64 word\<close> does; the sum of a float array is a
  float.
\<close>

definition np_sum :: "py_num list \<Rightarrow> py_num" where
  "np_sum burn =
     (if burn = [] then PyFloat 0
      else case int_values burn of
        Some ws \<Rightarrow> PyInt (sum_list ws)
      | None \<Rightarrow> PyFloat (sum_list (map to_float burn)))"

text \<open>\<^verbatim>\<open>payouts[year]\<close>, which raises \<^verbatim>\<open>KeyError\<close> on a missing key.\<close>

definition dict_get :: "('k \<times> 'v) list \<Rightarrow> 'k \<Rightarrow> py_error + 'v" where
  "dict_get payouts year =
     (case map_of payouts year of None \<Rightarrow> Inl KeyError | Some v \<Rightarrow> Inr v)"

text \<open>The loop of lines 104 to 106 over the keys, with the list \<^verbatim>\<open>burn\<close> built so far.\<close>

fun burn_loop :: "num_dict \<Rightarrow> int list \<Rightarrow> int \<Rightarrow> int \<Rightarrow> py_num list \<Rightarrow> py_error + py_num list" where
  "burn_loop payouts [] start_year end_year burn = Inr burn"
| "burn_loop payouts (year # years) start_year end_year burn =
     (if year \<ge> start_year \<and> year \<le> end_year then
        (case dict_get payouts year of
           Inl err \<Rightarrow> Inl err
         | Inr v \<Rightarrow> burn_loop payouts years start_year end_year (burn @ [v]))
      else burn_loop payouts years start_year end_year burn)"

text \<open>
  The result is \<open>Inr None\<close> for Python's \<^verbatim>\<open>None\<close> and \<open>Inr (Some c)\<close> for the
  number \<open>c\<close>: the sum, converted to a float, over the length of the interval. The
  division is only reached with a positive divisor
  (lemma \<open>compute_burning_cost_divisor\<close> below).
\<close>

definition compute_burning_cost :: "num_dict \<Rightarrow> int \<Rightarrow> int \<Rightarrow> py_error + real option" where
  "compute_burning_cost payouts start_year end_year =
     (let payout_years = map fst payouts in
      case burn_loop payouts payout_years start_year end_year [] of
        Inl err \<Rightarrow> Inl err
      | Inr burn \<Rightarrow>
          if length burn < 1 then Inr None
          else Inr (Some (to_float (np_sum burn) / real_of_int (end_year - start_year + 1))))"

section \<open>Example inputs\<close>

text \<open>
  The schedule and the event of the end-to-end scenario of the specification, a band with
  a negative payout, events of one calendar year, the payouts of the specification's
  burning-cost example, and two integer payouts whose sum leaves the \<^verbatim>\<open>int64\<close> range.
\<close>

abbreviation spec_schedule :: "band list" where
  "spec_schedule \<equiv>
     [\<lparr>Radius = 100, Magnitude = 5, Payout = 500\<rparr>, \<lparr>Radius = 50, Magnitude = 13 / 2, Payout = 1000\<rparr>]"

abbreviation spec_event :: event where
  "spec_event \<equiv> \<lparr>time = ''20010615'', mag = 6, distance = 50\<rparr>"

abbreviation negative_band :: band where
  "negative_band \<equiv> \<lparr>Radius = 100, Magnitude = 5, Payout = - 5\<rparr>"

abbreviation tiered_schedule :: "band list" where
  "tiered_schedule \<equiv>
     [\<lparr>Radius = 100, Magnitude = 5, Payout = 100\<rparr>, \<lparr>Radius = 50, Magnitude = 13 / 2, Payout = 300\<rparr>]"

abbreviation moderate_event :: event where
  "moderate_event \<equiv> \<lparr>time = ''2001-03-01T04:05:06.000Z'', mag = 11 / 2, distance = 80\<rparr>"

abbreviation strong_event :: event where
  "strong_event \<equiv> \<lparr>time = ''2001-09-12T10:00:00.000Z'', mag = 7, distance = 30\<rparr>"

abbreviation quiet_event :: event where
  "quiet_event \<equiv> \<lparr>time = ''1999-01-01T00:00:00.000Z'', mag = 4, distance = 500\<rparr>"

abbreviation late_event :: event where
  "late_event \<equiv> \<lparr>time = ''1999-12-31T23:59:59.000Z'', mag = 6, distance = 50\<rparr>"

abbreviation spec_payouts :: num_dict where
  "spec_payouts \<equiv> [(2000, PyInt 100), (2001, PyInt 0)]"

abbreviation huge_payouts :: num_dict where
  "huge_payouts \<equiv> [(2000, PyInt (2 ^ 62)), (2001, PyInt (2 ^ 62))]"

section \<open>Properties of \<^verbatim>\<open>compute_burning_cost\<close>\<close>

subsection \<open>The sum of the payouts\<close>

lemma int_values_Some: "int_values burn = Some ws \<Longrightarrow> burn = map PyInt ws"
  by (induction burn arbitrary: ws rule: int_values.induct) auto

lemma int_values_None: "int_values burn = None \<longleftrightarrow> (\<exists>v \<in> set burn. \<not> is_int v)"
  by (induction burn rule: int_values.induct) auto

lemma sum_list_word_of_int:
  "(sum_list ws :: 64 word) = word_of_int (sum_list (map sint ws))"
  by (induction ws) simp_all

lemma sint_sum_list:
  fixes ws :: "64 word list"
  assumes "- (2 ^ 63) \<le> sum_list (map sint ws)" and "sum_list (map sint ws) < 2 ^ 63"
  shows "sint (sum_list ws) = sum_list (map sint ws)"
proof -
  have "sint (sum_list ws) = signed_take_bit 63 (sum_list (map sint ws))"
    by (subst sum_list_word_of_int) (simp add: sint_sbintrunc')
  also from assms have "\<dots> = sum_list (map sint ws)"
    by (intro signed_take_bit_int_eq_self) simp_all
  finally show ?thesis .
qed

lemma to_float_int_sum:
  "sum_list (map to_float (map PyInt ws)) = real_of_int (sum_list (map sint ws))"
  by (induction ws) simp_all

lemma to_float_np_sum:
  assumes "(\<exists>v \<in> set burn. \<not> is_int v) \<or>
           (- (2 ^ 63) \<le> sum_list (map to_float burn) \<and> sum_list (map to_float burn) < 2 ^ 63)"
  shows "to_float (np_sum burn) = sum_list (map to_float burn)"
proof (cases "int_values burn")
  case None
  then show ?thesis by (auto simp: np_sum_def)
next
  case (Some ws)
  then have b: "burn = map PyInt ws" by (rule int_values_Some)
  from Some have "\<not> (\<exists>v \<in> set burn. \<not> is_int v)"
    using int_values_None [of burn] by simp
  with assms have r: "- (2 ^ 63) \<le> sum_list (map to_float burn)" "sum_list (map to_float burn) < 2 ^ 63"
    by blast+
  have s: "sum_list (map to_float burn) = real_of_int (sum_list (map sint ws))"
    unfolding b by (rule to_float_int_sum)
  from r have "real_of_int (- (2 ^ 63)) \<le> real_of_int (sum_list (map sint ws))"
    "real_of_int (sum_list (map sint ws)) < real_of_int (2 ^ 63)"
    unfolding s by simp_all
  then have "- (2 ^ 63) \<le> sum_list (map sint ws)" "sum_list (map sint ws) < 2 ^ 63"
    by (simp_all only: of_int_le_iff of_int_less_iff)
  then have "sint (sum_list ws) = sum_list (map sint ws)"
    by (rule sint_sum_list)
  with Some s b show ?thesis
    by (auto simp: np_sum_def)
qed


lemma sint_examples:
  "sint (100 :: 64 word) = 100" "sint (0 :: 64 word) = 0"
  "sint (2 ^ 62 :: 64 word) = 2 ^ 62" "sint (2 ^ 62 + 2 ^ 62 :: 64 word) = - (2 ^ 63)"
  by (simp_all add: sint_uint)

subsection \<open>The loop over the keys\<close>

lemma burn_loop_keys:
  "set years \<subseteq> fst ` set payouts \<Longrightarrow>
   burn_loop payouts years start_year end_year burn =
     Inr (burn @ map (\<lambda>y. the (map_of payouts y))
                  (filter (\<lambda>y. start_year \<le> y \<and> y \<le> end_year) years))"
proof (induction years arbitrary: burn)
  case Nil
  then show ?case by simp
next
  case (Cons year years)
  from Cons.prems have "year \<in> fst ` set payouts" by simp
  then obtain v where v: "map_of payouts year = Some v"
    by (metis domD dom_map_of_conv_image_fst)
  from Cons.prems have sub: "set years \<subseteq> fst ` set payouts" by simp
  show ?case
    by (simp add: dict_get_def v Cons.IH [OF sub])
qed

lemma compute_burning_cost_eq:
  "compute_burning_cost payouts start_year end_year =
     (let burn = map (\<lambda>y. the (map_of payouts y))
                   (filter (\<lambda>y. start_year \<le> y \<and> y \<le> end_year) (map fst payouts))
      in if burn = [] then Inr None
         else Inr (Some (to_float (np_sum burn) / real_of_int (end_year - start_year + 1))))"
proof -
  have "set (map fst payouts) \<subseteq> fst ` set payouts" by simp
  then have "burn_loop payouts (map fst payouts) start_year end_year [] =
      Inr ([] @ map (\<lambda>y. the (map_of payouts y))
                  (filter (\<lambda>y. start_year \<le> y \<and> y \<le> end_year) (map fst payouts)))"
    by (rule burn_loop_keys)
  then show ?thesis
    unfolding compute_burning_cost_def Let_def
    by (simp del: filter_map length_filter_map)
qed

lemma compute_burning_cost_divisor:
  assumes "compute_burning_cost payouts start_year end_year = Inr (Some c)"
  shows "0 < end_year - start_year + 1"
proof -
  from assms have "filter (\<lambda>y. start_year \<le> y \<and> y \<le> end_year) (map fst payouts) \<noteq> []"
    by (auto simp: compute_burning_cost_eq Let_def split: if_splits)
  then obtain y where "start_year \<le> y" "y \<le> end_year"
    by (auto simp: filter_empty_conv)
  then show ?thesis by simp
qed

subsection \<open>The claims on \<^verbatim>\<open>compute_burning_cost\<close>\<close>

text \<open>
  Claim C1, as amended. When at least one year of the mapping lies in the closed interval
  \<open>[start_year, end_year]\<close>, and the payouts of the years inside the interval are not
  all integers or their sum lies in the \<^verbatim>\<open>int64\<close> range from \<open>- 2 ^ 63\<close> up to, and
  not including, \<open>2 ^ 63\<close>, \<open>compute_burning_cost\<close> returns the sum of the payouts of
  the mapping's years inside the interval divided by the length
  \<open>end_year - start_year + 1\<close> of the requested interval, whatever the number of years
  present. For \<open>{2000: 100, 2001: 0}\<close> and \<open>[2000, 2004]\<close> the result is 20.
\<close>

theorem compute_burning_cost_interval_length:
  assumes "distinct (map fst payouts)"
    and "\<exists>year \<in> fst ` set payouts. start_year \<le> year \<and> year \<le> end_year"
    and "(\<exists>year \<in> fst ` set payouts. start_year \<le> year \<and> year \<le> end_year \<and>
            \<not> is_int (the (map_of payouts year))) \<or>
         (- (2 ^ 63) \<le> (\<Sum>year \<in> {y \<in> fst ` set payouts. start_year \<le> y \<and> y \<le> end_year}.
                            to_float (the (map_of payouts year))) \<and>
          (\<Sum>year \<in> {y \<in> fst ` set payouts. start_year \<le> y \<and> y \<le> end_year}.
              to_float (the (map_of payouts year))) < 2 ^ 63)"
  shows "compute_burning_cost payouts start_year end_year =
     Inr (Some ((\<Sum>year \<in> {y \<in> fst ` set payouts. start_year \<le> y \<and> y \<le> end_year}.
                   to_float (the (map_of payouts year)))
                / real_of_int (end_year - start_year + 1)))"
proof -
  define ys where "ys = filter (\<lambda>y. start_year \<le> y \<and> y \<le> end_year) (map fst payouts)"
  define burn where "burn = map (\<lambda>y. the (map_of payouts y)) ys"
  define Y where "Y = {y \<in> fst ` set payouts. start_year \<le> y \<and> y \<le> end_year}"
  have Y: "set ys = Y" by (auto simp: ys_def Y_def)
  from assms(2) have ne: "burn \<noteq> []"
    by (auto simp: burn_def ys_def filter_empty_conv)
  from assms(1) have "distinct ys" by (simp add: ys_def)
  then have "sum_list (map (\<lambda>y. to_float (the (map_of payouts y))) ys) =
      (\<Sum>year \<in> set ys. to_float (the (map_of payouts year)))"
    by (rule sum_list_distinct_conv_sum_set)
  then have total: "sum_list (map to_float burn) = (\<Sum>year \<in> Y. to_float (the (map_of payouts year)))"
    by (simp add: burn_def Y comp_def)
  have "(\<exists>v \<in> set burn. \<not> is_int v) \<or>
      (- (2 ^ 63) \<le> sum_list (map to_float burn) \<and> sum_list (map to_float burn) < 2 ^ 63)"
    using assms(3) unfolding total Y_def [symmetric]
    by (auto simp: burn_def Y Y_def)
  then have "to_float (np_sum burn) = sum_list (map to_float burn)"
    by (rule to_float_np_sum)
  with ne total show ?thesis
    unfolding compute_burning_cost_eq Let_def ys_def [symmetric] burn_def [symmetric] Y_def [symmetric]
    by simp
qed


theorem compute_burning_cost_interval_length_witness:
  "distinct (map fst spec_payouts) \<and>
   (\<exists>year \<in> fst ` set spec_payouts. 2000 \<le> year \<and> year \<le> 2004) \<and>
   compute_burning_cost spec_payouts 2000 2004 =
     Inr (Some ((\<Sum>year \<in> {y \<in> fst ` set spec_payouts. 2000 \<le> y \<and> y \<le> 2004}.
                   to_float (the (map_of spec_payouts year)))
                / real_of_int (2004 - 2000 + 1))) \<and>
   compute_burning_cost spec_payouts 2000 2004 = Inr (Some 20) \<and>
   compute_burning_cost spec_payouts 2000 2004 \<noteq> Inr (Some (100 / 2))"
proof -
  have d: "distinct (map fst spec_payouts)" by simp
  have ex: "\<exists>year \<in> fst ` set spec_payouts. 2000 \<le> year \<and> year \<le> 2004"
    by simp
  have Y: "{y \<in> fst ` set spec_payouts. 2000 \<le> y \<and> y \<le> 2004} = {2000, 2001}"
    by auto
  have total: "(\<Sum>year \<in> {y \<in> fst ` set spec_payouts. 2000 \<le> y \<and> y \<le> 2004}.
      to_float (the (map_of spec_payouts year))) = 100"
    unfolding Y by (simp add: sint_examples)
  have fits: "(\<exists>year \<in> fst ` set spec_payouts. 2000 \<le> year \<and> year \<le> 2004 \<and>
            \<not> is_int (the (map_of spec_payouts year))) \<or>
         (- (2 ^ 63) \<le> (\<Sum>year \<in> {y \<in> fst ` set spec_payouts. 2000 \<le> y \<and> y \<le> 2004}.
                            to_float (the (map_of spec_payouts year))) \<and>
          (\<Sum>year \<in> {y \<in> fst ` set spec_payouts. 2000 \<le> y \<and> y \<le> 2004}.
              to_float (the (map_of spec_payouts year))) < 2 ^ 63)"
    unfolding total by simp
  note inst = compute_burning_cost_interval_length [OF d ex fits]
  have v: "compute_burning_cost spec_payouts 2000 2004 = Inr (Some 20)"
    unfolding inst total by simp
  from inst d ex v show ?thesis
    by simp
qed

text \<open>
  The claim as first stated, for every mapping, fails when the payouts are integers and
  their sum leaves the \<^verbatim>\<open>int64\<close> range: for \<open>{2000: 2 ^ 62, 2001: 2 ^ 62}\<close> and
  \<open>[2000, 2001]\<close> the sum wraps to \<open>- 2 ^ 63\<close> and the result is \<open>- 2 ^ 62\<close>, where the
  sum divided by the length is \<open>2 ^ 62\<close>.
\<close>

theorem compute_burning_cost_int64_wraps:
  "compute_burning_cost huge_payouts 2000 2001 = Inr (Some (- (2 ^ 62))) \<and>
   (to_float (PyInt (2 ^ 62)) + to_float (PyInt (2 ^ 62))) / real_of_int (2001 - 2000 + 1) = 2 ^ 62 \<and>
   compute_burning_cost huge_payouts 2000 2001 \<noteq>
     Inr (Some ((to_float (PyInt (2 ^ 62)) + to_float (PyInt (2 ^ 62))) / real_of_int (2001 - 2000 + 1)))"
  by (simp add: compute_burning_cost_def dict_get_def np_sum_def sint_examples)

text \<open>
  Claim C4. When no year of the mapping lies in the interval, \<open>compute_burning_cost\<close>
  returns \<open>None\<close>, which is not the number 0.
\<close>

theorem compute_burning_cost_no_data:
  assumes "\<forall>year \<in> fst ` set payouts. \<not> (start_year \<le> year \<and> year \<le> end_year)"
  shows "compute_burning_cost payouts start_year end_year = Inr None \<and>
         compute_burning_cost payouts start_year end_year \<noteq> Inr (Some 0)"
proof -
  from assms have "filter (\<lambda>y. start_year \<le> y \<and> y \<le> end_year) (map fst payouts) = []"
    by (auto simp: filter_empty_conv)
  then show ?thesis
    by (simp add: compute_burning_cost_eq)
qed

theorem compute_burning_cost_no_data_witness:
  "fst ` set spec_payouts \<inter> {1900 .. 1901} = {} \<and>
   compute_burning_cost spec_payouts 1900 1901 = Inr None \<and>
   compute_burning_cost spec_payouts 1900 1901 \<noteq> Inr (Some 0)"
proof -
  have h: "\<forall>year \<in> fst ` set spec_payouts. \<not> (1900 \<le> year \<and> year \<le> 1901)"
    by simp
  from compute_burning_cost_no_data [OF h] show ?thesis by simp
qed

text \<open>
  Claim C9. When \<open>start_year > end_year\<close>, \<open>compute_burning_cost\<close> returns \<open>None\<close>
  for every mapping: the division is not reached.
\<close>

theorem compute_burning_cost_empty_interval:
  assumes "start_year > end_year"
  shows "compute_burning_cost payouts start_year end_year = Inr None"
proof -
  from assms have "filter (\<lambda>y. start_year \<le> y \<and> y \<le> end_year) (map fst payouts) = []"
    by (auto simp: filter_empty_conv)
  then show ?thesis
    by (simp add: compute_burning_cost_eq)
qed

theorem compute_burning_cost_empty_interval_witness:
  "(2021 :: int) > 2020 \<and>
   compute_burning_cost [(2020, PyInt 100), (2021, PyFloat 50)] 2021 2020 = Inr None"
proof -
  have h: "(2021 :: int) > 2020" by simp
  from compute_burning_cost_empty_interval [OF h] h show ?thesis by blast
qed

section \<open>Properties of \<^verbatim>\<open>compute_payouts\<close>\<close>

subsection \<open>The scan of the schedule\<close>

lemma Max_insert_max:
  fixes p q :: real
  assumes "finite S"
  shows "Max (insert (max p q) S) = Max (insert p (insert q S))"
  using assms by (cases "S = {}") (simp_all add: max.assoc)

lemma schedule_loop_Max:
  "schedule_loop e bs payout = Max (insert payout (Payout ` set (filter (qualifies e) bs)))"
proof (induction bs arbitrary: payout)
  case Nil
  then show ?case by simp
next
  case (Cons b bs)
  let ?S = "Payout ` set (filter (qualifies e) bs)"
  show ?case
  proof (cases "qualifies e b")
    case False
    then show ?thesis by (simp add: Cons.IH)
  next
    case True
    have m: "(if payout < Payout b then Payout b else payout) = max payout (Payout b)"
      by (simp add: max_def)
    have "schedule_loop e (b # bs) payout = schedule_loop e bs (max payout (Payout b))"
      using True by (simp add: m)
    also have "\<dots> = Max (insert (max payout (Payout b)) ?S)"
      by (rule Cons.IH)
    also have "\<dots> = Max (insert payout (insert (Payout b) ?S))"
      by (rule Max_insert_max) simp
    also have "insert (Payout b) ?S = Payout ` set (filter (qualifies e) (b # bs))"
      using True by simp
    finally show ?thesis .
  qed
qed

lemma event_payout_nonneg: "0 \<le> event_payout e payouts_str"
  by (simp add: event_payout_def schedule_loop_Max)

lemma event_payout_none_qualifies:
  assumes "\<forall>b \<in> set payouts_str. \<not> qualifies e b"
  shows "event_payout e payouts_str = 0"
proof -
  from assms have "filter (qualifies e) payouts_str = []"
    by (simp add: filter_empty_conv)
  then show ?thesis
    by (simp add: event_payout_def schedule_loop_Max)
qed

lemma schedule_loop_mono:
  assumes "\<And>b. b \<in> set bs \<Longrightarrow> qualifies e b \<Longrightarrow> qualifies e' b" and "p \<le> p'"
  shows "schedule_loop e bs p \<le> schedule_loop e' bs p'"
  using assms
proof (induction bs arbitrary: p p')
  case Nil
  then show ?case by simp
next
  case (Cons b bs)
  have step: "(if qualifies e b then (if p < Payout b then Payout b else p) else p)
      \<le> (if qualifies e' b then (if p' < Payout b then Payout b else p') else p')"
    using Cons.prems(1) [of b] Cons.prems(2) by auto
  have "schedule_loop e bs (if qualifies e b then (if p < Payout b then Payout b else p) else p)
      \<le> schedule_loop e' bs (if qualifies e' b then (if p' < Payout b then Payout b else p') else p')"
    using Cons.prems(1) step by (intro Cons.IH) auto
  then show ?case by simp
qed

subsection \<open>The update of the dictionary and the loop over the catalogue\<close>

lemma map_of_record_payout:
  "map_of (record_payout year payout payout_years) =
     (map_of payout_years)(year \<mapsto>
        (case map_of payout_years year of None \<Rightarrow> payout | Some old \<Rightarrow> max old payout))"
  by (auto simp: record_payout_def AList.update_conv' max_def split: option.splits)

lemma keys_record_payout:
  "fst ` set (record_payout year payout payout_years) = insert year (fst ` set payout_years)"
  by (auto simp: record_payout_def AList.dom_update split: option.splits
      dest: map_of_SomeD intro: rev_image_eqI)

lemma distinct_record_payout:
  "distinct (map fst payout_years) \<Longrightarrow> distinct (map fst (record_payout year payout payout_years))"
  by (simp add: record_payout_def AList.distinct_update split: option.splits)

lemma set_update_cases:
  "kv \<in> set (AList.update k v al) \<Longrightarrow> kv = (k, v) \<or> kv \<in> set al"
  by (induction al) (auto split: if_splits)

lemma set_record_payout:
  "kv \<in> set (record_payout year payout payout_years) \<Longrightarrow>
   kv = (year, payout) \<or> kv \<in> set payout_years"
  by (auto simp: record_payout_def split: option.splits if_splits dest!: set_update_cases)

lemma events_loop_append:
  "events_loop (xs @ ys) payouts_str payout_years =
     (case events_loop xs payouts_str payout_years of
        Inl err \<Rightarrow> Inl err
      | Inr m \<Rightarrow> events_loop ys payouts_str m)"
  by (induction xs arbitrary: payout_years) (auto split: sum.splits)

lemma events_loop_years:
  "events_loop es payouts_str payout_years = Inr m \<Longrightarrow> e \<in> set es \<Longrightarrow> \<exists>y. year_of e = Inr y"
  by (induction es arbitrary: payout_years) (auto split: sum.splits)

lemma events_loop_total:
  "\<forall>e \<in> set es. \<exists>y. year_of e = Inr y \<Longrightarrow> \<exists>m. events_loop es payouts_str payout_years = Inr m"
  by (induction es arbitrary: payout_years) (auto split: sum.splits)

lemma events_loop_keys:
  "events_loop es payouts_str payout_years = Inr m \<Longrightarrow>
   fst ` set m = fst ` set payout_years \<union> {y. \<exists>e \<in> set es. year_of e = Inr y}"
proof (induction es arbitrary: payout_years)
  case Nil
  then show ?case by simp
next
  case (Cons e es)
  from Cons.prems obtain year where y: "year_of e = Inr year"
    and loop: "events_loop es payouts_str (record_payout year (event_payout e payouts_str) payout_years) = Inr m"
    by (auto split: sum.splits)
  from Cons.IH [OF loop] y show ?case
    by (auto simp: keys_record_payout)
qed

lemma events_loop_distinct:
  "events_loop es payouts_str payout_years = Inr m \<Longrightarrow> distinct (map fst payout_years) \<Longrightarrow>
   distinct (map fst m)"
  by (induction es arbitrary: payout_years) (auto split: sum.splits intro: distinct_record_payout)

lemma events_loop_values:
  "events_loop es payouts_str payout_years = Inr m \<Longrightarrow> v \<in> snd ` set m \<Longrightarrow>
   v \<in> snd ` set payout_years \<or> (\<exists>e \<in> set es. v = event_payout e payouts_str)"
proof (induction es arbitrary: payout_years)
  case Nil
  then show ?case by simp
next
  case (Cons e es)
  from Cons.prems(1) obtain year where
    loop: "events_loop es payouts_str (record_payout year (event_payout e payouts_str) payout_years) = Inr m"
    by (auto split: sum.splits)
  from Cons.IH [OF loop Cons.prems(2)] show ?case
    by (auto dest!: set_record_payout)
qed

lemma events_loop_lookup:
  "events_loop es payouts_str payout_years = Inr m \<Longrightarrow>
   map_of m y =
     (if {e \<in> set es. year_of e = Inr y} = {} then map_of payout_years y
      else Some (Max ((\<lambda>e. event_payout e payouts_str) ` {e \<in> set es. year_of e = Inr y}
                      \<union> set_option (map_of payout_years y))))"
proof (induction es arbitrary: payout_years)
  case Nil
  then show ?case by simp
next
  case (Cons e es)
  define p where "p = event_payout e payouts_str"
  define E where "E = {e' \<in> set es. year_of e' = Inr y}"
  define S where "S = (\<lambda>e'. event_payout e' payouts_str) ` E"
  from Cons.prems obtain year where yr: "year_of e = Inr year"
    and loop: "events_loop es payouts_str (record_payout year p payout_years) = Inr m"
    by (auto simp: p_def split: sum.splits)
  note IH = Cons.IH [OF loop, folded E_def, folded S_def]
  have fin: "finite S" by (simp add: S_def E_def)
  have emp: "S = {} \<longleftrightarrow> E = {}" by (simp add: S_def)
  show ?case
  proof (cases "year = y")
    case False
    with yr have E: "{e' \<in> set (e # es). year_of e' = Inr y} = E" by (auto simp: E_def)
    from False have r: "map_of (record_payout year p payout_years) y = map_of payout_years y"
      by (simp add: map_of_record_payout)
    show ?thesis
      unfolding E using IH [unfolded r] by (simp only: S_def)
  next
    case True
    with yr have E: "{e' \<in> set (e # es). year_of e' = Inr y} = insert e E" by (auto simp: E_def)
    have S: "(\<lambda>e'. event_payout e' payouts_str) ` insert e E = insert p S"
      by (simp add: S_def p_def)
    show ?thesis
    proof (cases "map_of payout_years y")
      case None
      with True have r: "map_of (record_payout year p payout_years) y = Some p"
        by (simp add: map_of_record_payout)
      have "map_of m y = Some (Max (insert p S))"
        using IH [unfolded r] emp by (cases "E = {}") simp_all
      with None show ?thesis
        unfolding E S by simp
    next
      case (Some old)
      with True have r: "map_of (record_payout year p payout_years) y = Some (max old p)"
        by (simp add: map_of_record_payout)
      have "map_of m y = Some (Max (insert (max old p) S))"
        using IH [unfolded r] emp by (cases "E = {}") simp_all
      also have "Max (insert (max old p) S) = Max (insert old (insert p S))"
        using fin by (rule Max_insert_max)
      finally show ?thesis
        unfolding E S using Some by (simp add: insert_commute)
    qed
  qed
qed

text \<open>
  \<open>compute_payouts\<close> returns a dictionary exactly when \<^verbatim>\<open>int\<close> accepts the first four
  characters of every event's time; its keys are then distinct.
\<close>

lemma compute_payouts_total:
  "\<forall>e \<in> set earthquake_data. \<exists>y. year_of e = Inr y \<Longrightarrow>
   \<exists>m. compute_payouts earthquake_data payouts_str = Inr m"
  unfolding compute_payouts_def by (rule events_loop_total)

lemma compute_payouts_distinct:
  "compute_payouts earthquake_data payouts_str = Inr m \<Longrightarrow> distinct (map fst m)"
  unfolding compute_payouts_def by (erule events_loop_distinct) simp

lemmas year_eval = year_of_def py_int_def strip_def is_space_def is_digit_def digit_val_def

lemmas payout_eval = event_payout_def qualifies_def record_payout_def compute_payouts_def

subsection \<open>The claims on \<^verbatim>\<open>compute_payouts\<close>\<close>

text \<open>
  Claim C2, as amended. The payout of one event is the maximum of 0 and the payouts of the
  bands that qualify, where a band qualifies when its radius is at least the event's
  distance and its magnitude threshold is at most the event's magnitude. So it is the
  maximum payout over the qualifying bands as soon as one of them has a non-negative
  payout, it is 0 when no band qualifies, and it is never negative.
\<close>

theorem event_payout_max_with_floor:
  "event_payout e payouts_str = Max (insert 0 (Payout ` set (filter (qualifies e) payouts_str))) \<and>
   ((\<exists>b \<in> set payouts_str. qualifies e b \<and> 0 \<le> Payout b) \<longrightarrow>
      event_payout e payouts_str = max_qualifying_payout e payouts_str) \<and>
   ((\<forall>b \<in> set payouts_str. \<not> qualifies e b) \<longrightarrow> event_payout e payouts_str = 0) \<and>
   0 \<le> event_payout e payouts_str"
proof (intro conjI impI)
  let ?S = "Payout ` set (filter (qualifies e) payouts_str)"
  show eq: "event_payout e payouts_str = Max (insert 0 ?S)"
    by (simp add: event_payout_def schedule_loop_Max)
  show "0 \<le> event_payout e payouts_str"
    by (rule event_payout_nonneg)
  show "event_payout e payouts_str = 0" if "\<forall>b \<in> set payouts_str. \<not> qualifies e b"
    using that by (rule event_payout_none_qualifies)
  show "event_payout e payouts_str = max_qualifying_payout e payouts_str"
    if "\<exists>b \<in> set payouts_str. qualifies e b \<and> 0 \<le> Payout b"
  proof -
    from that obtain b where b: "b \<in> set payouts_str" "qualifies e b" "0 \<le> Payout b"
      by blast
    then have mem: "Payout b \<in> ?S" by simp
    have fin: "finite ?S" by simp
    from mem fin have "Payout b \<le> Max ?S" by (rule Max_ge [rotated])
    with b(3) have "0 \<le> Max ?S" by simp
    moreover from mem fin have "Max (insert 0 ?S) = max 0 (Max ?S)"
      by (intro Max_insert) auto
    ultimately show ?thesis
      unfolding eq max_qualifying_payout_def by simp
  qed
qed

theorem event_payout_max_with_floor_witness:
  "event_payout spec_event spec_schedule =
     Max (insert 0 (Payout ` set (filter (qualifies spec_event) spec_schedule))) \<and>
   qualifies spec_event (spec_schedule ! 0) \<and> \<not> qualifies spec_event (spec_schedule ! 1) \<and>
   event_payout spec_event spec_schedule = max_qualifying_payout spec_event spec_schedule \<and>
   event_payout spec_event spec_schedule = 500 \<and>
   event_payout (spec_event\<lparr>distance := 150\<rparr>) spec_schedule = 0"
proof -
  have q: "\<exists>b \<in> set spec_schedule. qualifies spec_event b \<and> 0 \<le> Payout b"
    by (simp add: qualifies_def)
  have n: "\<forall>b \<in> set spec_schedule. \<not> qualifies (spec_event\<lparr>distance := 150\<rparr>) b"
    by (simp add: qualifies_def)
  have v: "max_qualifying_payout spec_event spec_schedule = 500"
    by (simp add: max_qualifying_payout_def qualifies_def)
  from event_payout_max_with_floor [of spec_event spec_schedule]
    event_payout_max_with_floor [of "spec_event\<lparr>distance := 150\<rparr>" spec_schedule] q n v
  show ?thesis
    by (simp add: qualifies_def)
qed

text \<open>
  The claim as first stated, without the floor of 0, fails for a schedule whose only
  qualifying band has a negative payout: the loop starts from 0 and keeps it.
\<close>

theorem event_payout_not_max_qualifying:
  "filter (qualifies spec_event) [negative_band] = [negative_band] \<and>
   max_qualifying_payout spec_event [negative_band] = - 5 \<and>
   event_payout spec_event [negative_band] = 0 \<and>
   event_payout spec_event [negative_band] \<noteq> max_qualifying_payout spec_event [negative_band]"
  by (simp add: event_payout_def max_qualifying_payout_def qualifies_def)

text \<open>
  Claim C3. The value recorded for a calendar year is the maximum of the payouts of the
  events of that year, not their sum: two events of 2001 with payouts 100 and 300 give
  300 for 2001.
\<close>

theorem compute_payouts_yearly_max:
  assumes "compute_payouts earthquake_data payouts_str = Inr m"
    and "e \<in> set earthquake_data" and "year_of e = Inr y"
  shows "map_of m y =
     Some (Max ((\<lambda>e'. event_payout e' payouts_str) `
                 {e' \<in> set earthquake_data. year_of e' = Inr y}))"
proof -
  from assms(2,3) have "{e' \<in> set earthquake_data. year_of e' = Inr y} \<noteq> {}" by auto
  with events_loop_lookup [OF assms(1) [unfolded compute_payouts_def], of y]
  show ?thesis by simp
qed

theorem compute_payouts_yearly_max_witness:
  "compute_payouts [moderate_event, strong_event] tiered_schedule = Inr [(2001, 300)] \<and>
   event_payout moderate_event tiered_schedule = 100 \<and>
   event_payout strong_event tiered_schedule = 300 \<and>
   Max ((\<lambda>e'. event_payout e' tiered_schedule) `
          {e' \<in> set [moderate_event, strong_event]. year_of e' = Inr 2001}) = 300"
proof -
  have c: "compute_payouts [moderate_event, strong_event] tiered_schedule = Inr [(2001, 300)]"
    by (simp add: payout_eval year_eval)
  have y: "year_of moderate_event = Inr 2001"
    by (simp add: year_eval)
  have v: "event_payout moderate_event tiered_schedule = 100"
    "event_payout strong_event tiered_schedule = 300"
    by (simp_all add: payout_eval)
  from compute_payouts_yearly_max [OF c _ y] c v show ?thesis
    by simp
qed

text \<open>
  Claim C5. Every year of an event is a key of the returned dictionary; its value is 0
  when no event of that year qualifies for any band; and one more event, whose year
  already has a recorded payout, replaces that payout only when its own payout is
  strictly greater.
\<close>

theorem compute_payouts_year_keys:
  assumes "compute_payouts earthquake_data payouts_str = Inr m"
  shows "(\<forall>e \<in> set earthquake_data. \<exists>y. year_of e = Inr y \<and> y \<in> fst ` set m) \<and>
    (\<forall>y. (\<exists>e \<in> set earthquake_data. year_of e = Inr y) \<and>
         (\<forall>e \<in> set earthquake_data. year_of e = Inr y \<longrightarrow>
            (\<forall>b \<in> set payouts_str. \<not> qualifies e b)) \<longrightarrow>
         map_of m y = Some 0) \<and>
    (\<forall>e y old. year_of e = Inr y \<and> map_of m y = Some old \<longrightarrow>
       compute_payouts (earthquake_data @ [e]) payouts_str =
         Inr (if old < event_payout e payouts_str
              then AList.update y (event_payout e payouts_str) m else m))"
proof (intro conjI allI ballI impI)
  from assms have loop: "events_loop earthquake_data payouts_str [] = Inr m"
    by (simp add: compute_payouts_def)
  show "\<exists>y. year_of e = Inr y \<and> y \<in> fst ` set m" if "e \<in> set earthquake_data" for e
  proof -
    from loop that obtain y where "year_of e = Inr y"
      by (blast dest: events_loop_years)
    moreover from this that have "y \<in> fst ` set m"
      unfolding events_loop_keys [OF loop] by blast
    ultimately show ?thesis by blast
  qed
  show "map_of m y = Some 0"
    if "(\<exists>e \<in> set earthquake_data. year_of e = Inr y) \<and>
        (\<forall>e \<in> set earthquake_data. year_of e = Inr y \<longrightarrow>
           (\<forall>b \<in> set payouts_str. \<not> qualifies e b))" for y
  proof -
    define E where "E = {e \<in> set earthquake_data. year_of e = Inr y}"
    from that have ne: "E \<noteq> {}" by (auto simp: E_def)
    from that have "\<forall>e \<in> E. event_payout e payouts_str = 0"
      by (auto simp: E_def intro: event_payout_none_qualifies)
    with ne have "(\<lambda>e. event_payout e payouts_str) ` E = {0}" by auto
    with ne events_loop_lookup [OF loop, of y, folded E_def] show ?thesis
      by simp
  qed
  show "compute_payouts (earthquake_data @ [e]) payouts_str =
      Inr (if old < event_payout e payouts_str
           then AList.update y (event_payout e payouts_str) m else m)"
    if "year_of e = Inr y \<and> map_of m y = Some old" for e y old
    using that loop by (simp add: compute_payouts_def events_loop_append record_payout_def)
qed

theorem compute_payouts_year_keys_witness:
  "compute_payouts [quiet_event] spec_schedule = Inr [(1999, 0)] \<and>
   year_of quiet_event = Inr 1999 \<and>
   1999 \<in> fst ` set [(1999 :: int, 0 :: real)] \<and>
   map_of [(1999 :: int, 0 :: real)] 1999 = Some 0 \<and>
   compute_payouts ([quiet_event] @ [late_event]) spec_schedule = Inr [(1999, 500)] \<and>
   compute_payouts ([quiet_event] @ [quiet_event]) spec_schedule = Inr [(1999, 0)]"
proof -
  have c: "compute_payouts [quiet_event] spec_schedule = Inr [(1999, 0)]"
    by (simp add: payout_eval year_eval)
  have y: "year_of quiet_event = Inr 1999" "year_of late_event = Inr 1999"
    by (simp_all add: year_eval)
  have v: "event_payout quiet_event spec_schedule = 0" "event_payout late_event spec_schedule = 500"
    by (simp_all add: payout_eval)
  from compute_payouts_year_keys [OF c] have
    "\<forall>e y old. year_of e = Inr y \<and> map_of [(1999 :: int, 0 :: real)] y = Some old \<longrightarrow>
       compute_payouts ([quiet_event] @ [e]) spec_schedule =
         Inr (if old < event_payout e spec_schedule
              then AList.update y (event_payout e spec_schedule) [(1999, 0)] else [(1999, 0)])"
    by blast
  from this [rule_format, of late_event 1999 0] this [rule_format, of quiet_event 1999 0] c y v
  show ?thesis by simp
qed

text \<open>
  Claim C7. With the schedule fixed, a larger magnitude at the same distance, and a
  smaller distance at the same magnitude, never lower the payout of an event.
\<close>

theorem event_payout_monotone:
  "(mag e \<le> mg' \<longrightarrow> event_payout e payouts_str \<le> event_payout (e\<lparr>mag := mg'\<rparr>) payouts_str) \<and>
   (dist' \<le> distance e \<longrightarrow> event_payout e payouts_str \<le> event_payout (e\<lparr>distance := dist'\<rparr>) payouts_str)"
proof (intro conjI impI)
  assume "mag e \<le> mg'"
  then show "event_payout e payouts_str \<le> event_payout (e\<lparr>mag := mg'\<rparr>) payouts_str"
    unfolding event_payout_def
    by (intro schedule_loop_mono) (auto simp: qualifies_def)
next
  assume "dist' \<le> distance e"
  then show "event_payout e payouts_str \<le> event_payout (e\<lparr>distance := dist'\<rparr>) payouts_str"
    unfolding event_payout_def
    by (intro schedule_loop_mono) (auto simp: qualifies_def)
qed

theorem event_payout_monotone_witness:
  "event_payout spec_event spec_schedule \<le> event_payout (spec_event\<lparr>mag := 7\<rparr>) spec_schedule \<and>
   event_payout (spec_event\<lparr>distance := 120\<rparr>) spec_schedule
     \<le> event_payout (spec_event\<lparr>distance := 120, distance := 50\<rparr>) spec_schedule \<and>
   event_payout spec_event spec_schedule = 500 \<and>
   event_payout (spec_event\<lparr>mag := 7\<rparr>) spec_schedule = 1000 \<and>
   event_payout (spec_event\<lparr>distance := 120\<rparr>) spec_schedule = 0"
proof -
  have v: "event_payout spec_event spec_schedule = 500"
    "event_payout (spec_event\<lparr>mag := 7\<rparr>) spec_schedule = 1000"
    "event_payout (spec_event\<lparr>distance := 120\<rparr>) spec_schedule = 0"
    by (simp_all add: event_payout_def qualifies_def)
  from event_payout_monotone [where e = spec_event and mg' = 7 and payouts_str = spec_schedule]
    event_payout_monotone [where e = "spec_event\<lparr>distance := 120\<rparr>" and dist' = 50
      and payouts_str = spec_schedule] v
  show ?thesis by simp
qed

text \<open>
  Claim C10. Every value of the returned dictionary is non-negative, for every schedule,
  also one with negative payouts.
\<close>

theorem compute_payouts_nonnegative:
  assumes "compute_payouts earthquake_data payouts_str = Inr m"
  shows "\<forall>v \<in> snd ` set m. 0 \<le> v"
proof
  fix v
  assume "v \<in> snd ` set m"
  with assms have "\<exists>e \<in> set earthquake_data. v = event_payout e payouts_str"
    by (auto simp: compute_payouts_def dest: events_loop_values)
  then show "0 \<le> v"
    by (auto intro: event_payout_nonneg)
qed

theorem compute_payouts_nonnegative_witness:
  "compute_payouts [spec_event, quiet_event] [negative_band] = Inr [(2001, 0), (1999, 0)] \<and>
   qualifies spec_event negative_band \<and> Payout negative_band < 0 \<and>
   0 \<le> snd (2001 :: int, 0 :: real) \<and> 0 \<le> snd (1999 :: int, 0 :: real)"
proof -
  have c: "compute_payouts [spec_event, quiet_event] [negative_band] = Inr [(2001, 0), (1999, 0)]"
    by (simp add: payout_eval year_eval)
  from compute_payouts_nonnegative [OF c] c show ?thesis
    by (simp add: qualifies_def)
qed

section \<open>Properties of \<^verbatim>\<open>get_haversine_distance\<close>\<close>

lemma sin_sq_half_diff: "(sin ((x - y) / 2))\<^sup>2 = (sin ((y - x) / 2))\<^sup>2" for x y :: real
proof -
  have "(x - y) / 2 = - ((y - x) / 2)" by argo
  then have "sin ((x - y) / 2) = - sin ((y - x) / 2)"
    by (simp only: sin_minus)
  then show ?thesis by simp
qed

lemma haversine_a_sym:
  "haversine_a lat_a lon_a lat_b lon_b = haversine_a lat_b lon_b lat_a lon_a"
proof -
  have 1: "(sin ((lat_a * (pi / 180) - lat_b * (pi / 180)) / 2))\<^sup>2
      = (sin ((lat_b * (pi / 180) - lat_a * (pi / 180)) / 2))\<^sup>2"
    by (rule sin_sq_half_diff)
  have 2: "(sin ((lon_a * (pi / 180) - lon_b * (pi / 180)) / 2))\<^sup>2
      = (sin ((lon_b * (pi / 180) - lon_a * (pi / 180)) / 2))\<^sup>2"
    by (rule sin_sq_half_diff)
  have 3: "cos (lat_b * (pi / 180)) * cos (lat_a * (pi / 180))
      = cos (lat_a * (pi / 180)) * cos (lat_b * (pi / 180))"
    by (rule mult.commute)
  show ?thesis
    unfolding haversine_a_def Let_def 1 2 3 ..
qed

text \<open>
  Claim C8. The distance from a point A to a reference point B equals the distance from
  B to the reference point A.
\<close>

theorem get_haversine_distance_symmetric:
  "get_haversine_distance lat_a lon_a lat_b lon_b = get_haversine_distance lat_b lon_b lat_a lon_a"
  unfolding get_haversine_distance_def Let_def
  by (simp only: haversine_a_sym [of lat_a lon_a lat_b lon_b])

text \<open>
  In exact real arithmetic the argument \<open>a\<close> of the square root lies in \<open>[0, 1]\<close> for all
  inputs, so the arcsine is always taken inside its domain; the source has no clamp, and
  only the rounding of floating-point arithmetic, which this model does not have, could
  push \<open>a\<close> outside.
\<close>

lemma haversine_a_range:
  "0 \<le> haversine_a lats lons lat0 lon0 \<and> haversine_a lats lons lat0 lon0 \<le> 1"
proof -
  define A where "A = lats * (pi / 180)"
  define B where "B = lat0 * (pi / 180)"
  define s where "s = (sin ((lons * (pi / 180) - lon0 * (pi / 180)) / 2))\<^sup>2"
  define u where "u = cos (A - B)"
  define v where "v = cos (A + B)"
  have a: "haversine_a lats lons lat0 lon0 = (sin ((A - B) / 2))\<^sup>2 + cos B * cos A * s"
    unfolding haversine_a_def Let_def A_def B_def s_def ..
  have s0: "0 \<le> s" unfolding s_def by (rule zero_le_power2)
  have "\<bar>sin ((lons * (pi / 180) - lon0 * (pi / 180)) / 2)\<bar> \<le> 1" by (rule abs_sin_le_one)
  then have s1: "s \<le> 1" unfolding s_def by (simp add: abs_square_le_1)
  have dbl: "2 * ((A - B) / 2) = A - B" by argo
  have "cos (2 * ((A - B) / 2)) = 1 - 2 * (sin ((A - B) / 2))\<^sup>2"
    by (rule cos_double_sin)
  then have "u = 1 - 2 * (sin ((A - B) / 2))\<^sup>2"
    unfolding dbl u_def .
  then have half: "(sin ((A - B) / 2))\<^sup>2 = (1 - u) / 2"
    by argo
  have "u + v = 2 * (cos B * cos A)"
    unfolding u_def v_def cos_diff cos_add by simp
  then have prod: "cos B * cos A = (u + v) / 2" by simp
  have c: "- 1 \<le> u" "u \<le> 1" "- 1 \<le> v" "v \<le> 1"
    unfolding u_def v_def by simp_all
  define w where "w = (1 - u) / 2 + (u + v) / 2 * s"
  define L where "L = (1 - u) * (1 - s) + s * (1 + v)"
  define H where "H = (1 + u) * (1 - s) + s * (1 - v)"
  have lo: "2 * w = L"
    unfolding w_def L_def by (simp add: field_simps)
  have hi: "2 * (1 - w) = H"
    unfolding w_def H_def by (simp add: field_simps)
  have p1: "0 \<le> (1 - u) * (1 - s)" "0 \<le> (1 + u) * (1 - s)"
    using s1 c by (simp_all add: mult_nonneg_nonneg)
  have p2: "0 \<le> s * (1 + v)" "0 \<le> s * (1 - v)"
    using s0 c by (simp_all add: mult_nonneg_nonneg)
  from p1 p2 have "0 \<le> L" "0 \<le> H"
    unfolding L_def H_def by (simp_all add: add_nonneg_nonneg)
  with lo hi have "0 \<le> w \<and> w \<le> 1"
    by (intro conjI) argo+
  then show ?thesis
    unfolding a half prod w_def .
qed

end
